theory Spec2Isabelle
  imports Complex_Main
begin

section \<open>Tensors\<close>

text \<open>
  A two-dimensional tensor is its shape together with its entries, read by index.
  Entries are real numbers: rounding, infinities and NaN of floating point are outside
  this development. Only entries inside the shape carry meaning.
\<close>

record tensor =
  shape0 :: nat
  shape1 :: nat
  entry :: "nat \<Rightarrow> nat \<Rightarrow> real"

datatype error = IndexError | RuntimeError | ValueError

text \<open>Equality of two tensors as the program can observe it: shape and entries in range.\<close>

definition same_tensor :: "tensor \<Rightarrow> tensor \<Rightarrow> bool" where
  "same_tensor a b \<longleftrightarrow>
     shape0 a = shape0 b \<and> shape1 a = shape1 b \<and>
     (\<forall>i<shape0 a. \<forall>j<shape1 a. entry a i j = entry b i j)"

text \<open>\<^verbatim>\<open>x.t()\<close>\<close>

definition torch_t :: "tensor \<Rightarrow> tensor" where
  "torch_t x = \<lparr>shape0 = shape1 x, shape1 = shape0 x, entry = (\<lambda>i j. entry x j i)\<rparr>"

text \<open>\<^verbatim>\<open>torch.exp(x)\<close>\<close>

definition torch_exp :: "tensor \<Rightarrow> tensor" where
  "torch_exp x = x\<lparr>entry := (\<lambda>i j. exp (entry x i j))\<rparr>"

text \<open>\<^verbatim>\<open>x / c\<close> and \<^verbatim>\<open>x * c\<close> for a number \<open>c\<close>\<close>

definition div_scalar :: "tensor \<Rightarrow> real \<Rightarrow> tensor" where
  "div_scalar x c = x\<lparr>entry := (\<lambda>i j. entry x i j / c)\<rparr>"

definition mul_scalar :: "tensor \<Rightarrow> real \<Rightarrow> tensor" where
  "mul_scalar x c = x\<lparr>entry := (\<lambda>i j. entry x i j * c)\<rparr>"

text \<open>\<^verbatim>\<open>torch.sum(x)\<close>\<close>

definition torch_sum :: "tensor \<Rightarrow> real" where
  "torch_sum x = (\<Sum>i<shape0 x. \<Sum>j<shape1 x. entry x i j)"

text \<open>\<^verbatim>\<open>torch.sum(x, dim=1, keepdim=True)\<close> and \<^verbatim>\<open>torch.sum(x, dim=0, keepdim=True)\<close>\<close>

definition sum_dim1 :: "tensor \<Rightarrow> tensor" where
  "sum_dim1 x = \<lparr>shape0 = shape0 x, shape1 = 1, entry = (\<lambda>i _. \<Sum>j<shape1 x. entry x i j)\<rparr>"

definition sum_dim0 :: "tensor \<Rightarrow> tensor" where
  "sum_dim0 x = \<lparr>shape0 = 1, shape1 = shape1 x, entry = (\<lambda>_ j. \<Sum>i<shape0 x. entry x i j)\<rparr>"

text \<open>
  \<^verbatim>\<open>x /= y\<close> for a tensor \<open>y\<close>: a dimension of \<open>y\<close> of size one is broadcast along the
  matching dimension of \<open>x\<close>, and \<open>x\<close> keeps its shape. In \<open>sinkhorn\<close> the divisor is a
  \<open>keepdim\<close> sum of \<open>x\<close> itself, so its shape always fits.
\<close>

definition idiv :: "tensor \<Rightarrow> tensor \<Rightarrow> tensor" where
  "idiv x y = x\<lparr>entry := (\<lambda>i j. entry x i j /
       entry y (if shape0 y = 1 then 0 else i) (if shape1 y = 1 then 0 else j))\<rparr>"

section \<open>The process group\<close>

text \<open>
  \<open>torch.distributed\<close> as the loss sees it. A collective is executed by every rank of the
  group at the same statement, so a function that may call one is modelled on the whole
  group: it takes the list of the ranks' arguments and returns the list of the ranks'
  results. The world size is the number of ranks. A process on its own is a group of one.
  \<open>is_initialized\<close> is only read where the package is available: the constructor of the
  loss refuses to gather without it, and \<open>sinkhorn\<close> asks only when it is to gather.
\<close>

record dist =
  is_available :: bool
  is_initialized :: bool

definition get_world_size :: "'a list \<Rightarrow> nat" where
  "get_world_size ranks = length ranks"

text \<open>\<^verbatim>\<open>dist.all_reduce(x)\<close> (sum) on a number and on a tensor: every rank keeps
  the shape of its own tensor and ends with the element-wise sum over all ranks.\<close>

definition all_reduce :: "real list \<Rightarrow> real list" where
  "all_reduce xs = map (\<lambda>_. sum_list xs) xs"

definition all_reduce_tensor :: "tensor list \<Rightarrow> tensor list" where
  "all_reduce_tensor xs = map (\<lambda>x. x\<lparr>entry := (\<lambda>i j. \<Sum>y\<leftarrow>xs. entry y i j)\<rparr>) xs"

section \<open>sinkhorn\<close>

text \<open>The loop body of \<open>sinkhorn\<close>, run \<open>iterations\<close> times; \<open>B\<close> holds each rank's \<open>B\<close>.\<close>

fun sinkhorn_loop :: "nat \<Rightarrow> nat \<Rightarrow> nat list \<Rightarrow> tensor list \<Rightarrow> tensor list" where
  "sinkhorn_loop 0 world_size B Q = Q"
| "sinkhorn_loop (Suc n) world_size B Q =
     (let sum_of_rows = map sum_dim1 Q;
          sum_of_rows = (if world_size > 1 then all_reduce_tensor sum_of_rows else sum_of_rows);
          Q = map2 idiv Q sum_of_rows;
          Q = map (\<lambda>q. idiv q (sum_dim0 q)) Q;
          Q = map2 (\<lambda>q b. div_scalar q (real b)) Q B
      in sinkhorn_loop n world_size B Q)"

text \<open>Lines 38 to 40: the world size \<open>sinkhorn\<close> works with.\<close>

definition sinkhorn_world_size :: "dist \<Rightarrow> bool \<Rightarrow> 'a list \<Rightarrow> nat" where
  "sinkhorn_world_size d gather_distributed ranks =
     (if gather_distributed \<and> is_initialized d then get_world_size ranks else 1)"

definition sinkhorn :: "dist \<Rightarrow> tensor list \<Rightarrow> int \<Rightarrow> real \<Rightarrow> bool \<Rightarrow> tensor list" where
  "sinkhorn d out iterations epsilon gather_distributed =
     (let world_size = sinkhorn_world_size d gather_distributed out;
          Q = map (\<lambda>out. torch_t (torch_exp (div_scalar out epsilon))) out;
          sum_Q = map torch_sum Q;
          sum_Q = (if world_size > 1 then all_reduce sum_Q else sum_Q);
          Q = map2 div_scalar Q sum_Q;
          B = map (\<lambda>q. shape1 q * world_size) Q;
          Q = sinkhorn_loop (nat iterations) world_size B Q;
          Q = map2 (\<lambda>q b. mul_scalar q (real b)) Q B
      in map torch_t Q)"

text \<open>The steps in the words of the specification, for one process and world size \<open>W\<close>.\<close>

definition normalize_rows :: "tensor \<Rightarrow> tensor" where
  "normalize_rows Q = idiv Q (sum_dim1 Q)"

definition normalize_columns :: "tensor \<Rightarrow> tensor" where
  "normalize_columns Q = idiv Q (sum_dim0 Q)"

definition sinkhorn_iteration :: "real \<Rightarrow> tensor \<Rightarrow> tensor" where
  "sinkhorn_iteration B Q = div_scalar (normalize_columns (normalize_rows Q)) B"

definition sinkhorn_steps :: "nat \<Rightarrow> tensor \<Rightarrow> nat \<Rightarrow> real \<Rightarrow> tensor" where
  "sinkhorn_steps W out n epsilon =
     (let Q0 = torch_t (torch_exp (div_scalar out epsilon));
          B = real (shape1 Q0 * W);
          Q1 = div_scalar Q0 (torch_sum Q0)
      in torch_t (mul_scalar ((sinkhorn_iteration B ^^ n) Q1) B))"

section \<open>Row concatenation and slicing\<close>

text \<open>\<^verbatim>\<open>torch.cat((a, b))\<close> along dimension 0: the other dimension has to agree.\<close>

definition cat_rows :: "tensor \<Rightarrow> tensor \<Rightarrow> tensor" where
  "cat_rows a b = \<lparr>shape0 = shape0 a + shape0 b, shape1 = shape1 a,
     entry = (\<lambda>i j. if i < shape0 a then entry a i j else entry b (i - shape0 a) j)\<rparr>"

definition torch_cat :: "tensor \<Rightarrow> tensor \<Rightarrow> error + tensor" where
  "torch_cat a b = (if shape1 a = shape1 b then Inr (cat_rows a b) else Inl RuntimeError)"

text \<open>The row concatenation of the shards of a batch, first shard first.\<close>

fun concat_shards :: "tensor list \<Rightarrow> tensor" where
  "concat_shards [] = \<lparr>shape0 = 0, shape1 = 0, entry = (\<lambda>_ _. 0)\<rparr>"
| "concat_shards [x] = x"
| "concat_shards (x # y # ys) = cat_rows x (concat_shards (y # ys))"

text \<open>\<^verbatim>\<open>x[:n]\<close> and \<^verbatim>\<open>x[start : start + n]\<close> on rows.\<close>

definition take_rows :: "nat \<Rightarrow> tensor \<Rightarrow> tensor" where
  "take_rows n x = x\<lparr>shape0 := min n (shape0 x)\<rparr>"

definition rows_from :: "nat \<Rightarrow> nat \<Rightarrow> tensor \<Rightarrow> tensor" where
  "rows_from start n x =
     \<lparr>shape0 = min (start + n) (shape0 x) - start, shape1 = shape1 x,
      entry = (\<lambda>i j. entry x (start + i) j)\<rparr>"

section \<open>SwaVLoss\<close>

record SwaVLoss =
  temperature :: real
  sinkhorn_iterations :: int
  sinkhorn_epsilon :: real
  sinkhorn_gather_distributed :: bool

definition SwaVLoss_init :: "dist \<Rightarrow> real \<Rightarrow> int \<Rightarrow> real \<Rightarrow> bool \<Rightarrow> error + SwaVLoss" where
  "SwaVLoss_init d temperature' sinkhorn_iterations' sinkhorn_epsilon'
       sinkhorn_gather_distributed' =
     (if sinkhorn_gather_distributed' \<and> \<not> is_available d then Inl ValueError
      else Inr \<lparr>temperature = temperature',
                sinkhorn_iterations = sinkhorn_iterations',
                sinkhorn_epsilon = sinkhorn_epsilon',
                sinkhorn_gather_distributed = sinkhorn_gather_distributed'\<rparr>)"

text \<open>\<^verbatim>\<open>F.log_softmax(x, dim=1)\<close>: each entry minus the logarithm of the sum of the
  exponentials of its row.\<close>

definition log_softmax :: "tensor \<Rightarrow> tensor" where
  "log_softmax x = x\<lparr>entry := (\<lambda>i j. entry x i j - ln (\<Sum>j'<shape1 x. exp (entry x i j')))\<rparr>"

text \<open>
  \<^verbatim>\<open>x * y\<close> with broadcasting: two sizes of a dimension fit when they are equal or one of
  them is one; otherwise the product raises.
\<close>

definition broadcast_dim :: "nat \<Rightarrow> nat \<Rightarrow> error + nat" where
  "broadcast_dim a b =
     (if a = b then Inr a else if a = 1 then Inr b else if b = 1 then Inr a
      else Inl RuntimeError)"

definition torch_mul :: "tensor \<Rightarrow> tensor \<Rightarrow> error + tensor" where
  "torch_mul x y =
     (case broadcast_dim (shape0 x) (shape0 y) of
        Inl e \<Rightarrow> Inl e
      | Inr r \<Rightarrow>
         (case broadcast_dim (shape1 x) (shape1 y) of
            Inl e \<Rightarrow> Inl e
          | Inr c \<Rightarrow> Inr \<lparr>shape0 = r, shape1 = c,
              entry = (\<lambda>i j.
                entry x (if shape0 x = 1 then 0 else i) (if shape1 x = 1 then 0 else j) *
                entry y (if shape0 y = 1 then 0 else i) (if shape1 y = 1 then 0 else j))\<rparr>))"

text \<open>\<^verbatim>\<open>torch.sum(x, dim=1)\<close>, a one-dimensional tensor, and \<^verbatim>\<open>torch.mean\<close> of one.
  Over the reals a division by zero yields zero where floating point yields NaN or an
  infinity (the mean of no rows, the loss of a single crop); no exception is raised in
  either case, and the theorems on values keep away from these inputs.\<close>

definition sum_rows :: "tensor \<Rightarrow> real list" where
  "sum_rows x = map (\<lambda>i. \<Sum>j<shape1 x. entry x i j) [0..<shape0 x]"

definition torch_mean :: "real list \<Rightarrow> real" where
  "torch_mean xs = sum_list xs / real (length xs)"

definition subloss :: "SwaVLoss \<Rightarrow> tensor \<Rightarrow> tensor \<Rightarrow> error + real" where
  "subloss self z q =
     (case torch_mul q (log_softmax (div_scalar z (temperature self))) of
        Inl e \<Rightarrow> Inl e
      | Inr p \<Rightarrow> Inr (- torch_mean (sum_rows p)))"



text \<open>
  The forward pass on one rank. \<open>peers i\<close> gives the tensors that the ranks before and after
  this one pass to \<open>sinkhorn\<close> for the \<open>i\<close>-th high resolution crop. One-dimensional
  tensors (the running loss) are lists.
\<close>

type_synonym peers = "nat \<Rightarrow> tensor list \<times> tensor list"

definition new_zeros :: "nat \<Rightarrow> real list" where
  "new_zeros n = replicate n 0"

fun high_loop :: "SwaVLoss \<Rightarrow> tensor list \<Rightarrow> nat \<Rightarrow> tensor \<Rightarrow> nat list \<Rightarrow> real list
    \<Rightarrow> error + real list" where
  "high_loop self high_resolution_outputs i q [] sub = Inr sub"
| "high_loop self high_resolution_outputs i q (v # vs) sub =
     (if v \<noteq> i then
        (case subloss self (high_resolution_outputs ! v) q of
           Inl e \<Rightarrow> Inl e
         | Inr s \<Rightarrow> high_loop self high_resolution_outputs i q vs (map (\<lambda>x. x + s) sub))
      else high_loop self high_resolution_outputs i q vs sub)"

fun low_loop :: "SwaVLoss \<Rightarrow> tensor list \<Rightarrow> tensor \<Rightarrow> nat list \<Rightarrow> real list
    \<Rightarrow> error + real list" where
  "low_loop self low_resolution_outputs q [] sub = Inr sub"
| "low_loop self low_resolution_outputs q (v # vs) sub =
     (case subloss self (low_resolution_outputs ! v) q of
        Inl e \<Rightarrow> Inl e
      | Inr s \<Rightarrow> low_loop self low_resolution_outputs q vs (map (\<lambda>x. x + s) sub))"

text \<open>The codes of the \<open>i\<close>-th high resolution crop (lines 163 to 180).\<close>

definition codes :: "dist \<Rightarrow> peers \<Rightarrow> SwaVLoss \<Rightarrow> tensor list \<Rightarrow> tensor list option \<Rightarrow> nat
    \<Rightarrow> error + tensor" where
  "codes d peers self high_resolution_outputs queue_outputs i =
     (let outputs = high_resolution_outputs ! i;
          appended =
            (case queue_outputs of
               None \<Rightarrow> Inr outputs
             | Some queue \<Rightarrow>
                 if i < length queue then torch_cat outputs (queue ! i) else Inl IndexError)
      in case appended of
           Inl e \<Rightarrow> Inl e
         | Inr outputs \<Rightarrow>
            (let q = sinkhorn d (fst (peers i) @ [outputs] @ snd (peers i))
                       (sinkhorn_iterations self) (sinkhorn_epsilon self)
                       (sinkhorn_gather_distributed self) ! length (fst (peers i))
             in Inr (case queue_outputs of
                       None \<Rightarrow> q
                     | Some _ \<Rightarrow> take_rows (shape0 (high_resolution_outputs ! i)) q)))"

fun crop_loop :: "dist \<Rightarrow> peers \<Rightarrow> SwaVLoss \<Rightarrow> tensor list \<Rightarrow> tensor list
    \<Rightarrow> tensor list option \<Rightarrow> int \<Rightarrow> nat list \<Rightarrow> real list \<Rightarrow> error + real list" where
  "crop_loop d peers self high_resolution_outputs low_resolution_outputs queue_outputs
       n_crops [] loss = Inr loss"
| "crop_loop d peers self high_resolution_outputs low_resolution_outputs queue_outputs
       n_crops (i # is) loss =
     (case codes d peers self high_resolution_outputs queue_outputs i of
        Inl e \<Rightarrow> Inl e
      | Inr q \<Rightarrow>
         (case high_loop self high_resolution_outputs i q
                 [0..<length high_resolution_outputs] (new_zeros 1) of
            Inl e \<Rightarrow> Inl e
          | Inr sub \<Rightarrow>
             (case low_loop self low_resolution_outputs q
                     [0..<length low_resolution_outputs] sub of
                Inl e \<Rightarrow> Inl e
              | Inr sub \<Rightarrow>
                 crop_loop d peers self high_resolution_outputs low_resolution_outputs
                   queue_outputs n_crops is
                   (map2 (+) loss (map (\<lambda>x. x / real_of_int (n_crops - 1)) sub)))))"

definition forward :: "dist \<Rightarrow> peers \<Rightarrow> SwaVLoss \<Rightarrow> tensor list \<Rightarrow> tensor list
    \<Rightarrow> tensor list option \<Rightarrow> error + real list" where
  "forward d peers self high_resolution_outputs low_resolution_outputs queue_outputs =
     (let n_crops = int (length high_resolution_outputs) + int (length low_resolution_outputs)
      in if high_resolution_outputs = [] then Inl IndexError
         else
           (case crop_loop d peers self high_resolution_outputs low_resolution_outputs
                   queue_outputs n_crops [0..<length high_resolution_outputs] (new_zeros 1) of
              Inl e \<Rightarrow> Inl e
            | Inr loss \<Rightarrow>
                Inr (map (\<lambda>x. x / real (length high_resolution_outputs)) loss)))"

section \<open>GaussianBlur\<close>

text \<open>
  A sample is a tensor or a PIL image. The random draws and the library calls
  (\<open>F.to_pil_image\<close>, \<open>F.to_tensor\<close>, \<open>Image.filter\<close> with a Gaussian blur of a radius) are
  parameters; a library call may raise.
\<close>

datatype ('t, 'p) sample = Tensor 't | Image 'p

record GaussianBlur =
  prob :: real
  sigmas :: "real \<times> real"

record ('t, 'p) blur_env =
  random_sample :: real
  uniform :: "real \<Rightarrow> real \<Rightarrow> real"
  to_pil_image :: "'t \<Rightarrow> error + 'p"
  to_tensor :: "'p \<Rightarrow> error + 't"
  gaussian_filter :: "real \<Rightarrow> 'p \<Rightarrow> error + 'p"

fun isinstance_Tensor :: "('t, 'p) sample \<Rightarrow> bool" where
  "isinstance_Tensor (Tensor _) = True"
| "isinstance_Tensor (Image _) = False"

fun isinstance_Image :: "('t, 'p) sample \<Rightarrow> bool" where
  "isinstance_Image (Tensor _) = False"
| "isinstance_Image (Image _) = True"

definition GaussianBlur_call :: "GaussianBlur \<Rightarrow> ('t, 'p) blur_env \<Rightarrow> ('t, 'p) sample
    \<Rightarrow> error + ('t, 'p) sample" where
  "GaussianBlur_call self env sample =
     (let prob' = random_sample env;
          is_input_tensor = isinstance_Tensor sample
      in case (case sample of Tensor x \<Rightarrow> to_pil_image env x | Image p \<Rightarrow> Inr p) of
           Inl e \<Rightarrow> Inl e
         | Inr sample_pil \<Rightarrow>
            (case (if prob' < prob self
                   then gaussian_filter env
                          (uniform env (fst (sigmas self)) (snd (sigmas self))) sample_pil
                   else Inr sample_pil) of
               Inl e \<Rightarrow> Inl e
             | Inr sample_pil \<Rightarrow>
                 if is_input_tensor
                 then (case to_tensor env sample_pil of Inl e \<Rightarrow> Inl e | Inr x \<Rightarrow> Inr (Tensor x))
                 else Inr (Image sample_pil)))"

section \<open>Auxiliary notions for the statements\<close>

text \<open>All entries inside the shape are positive.\<close>

definition positive :: "tensor \<Rightarrow> bool" where
  "positive Q \<longleftrightarrow> (\<forall>i<shape0 Q. \<forall>j<shape1 Q. 0 < entry Q i j)"

text \<open>\<^verbatim>\<open>torch.zeros(r, c)\<close>, used for concrete inputs.\<close>

definition zeros :: "nat \<Rightarrow> nat \<Rightarrow> tensor" where
  "zeros r c = \<lparr>shape0 = r, shape1 = c, entry = (\<lambda>_ _. 0)\<rparr>"

text \<open>Two shapes fit in an element-wise product.\<close>

definition broadcastable :: "tensor \<Rightarrow> tensor \<Rightarrow> bool" where
  "broadcastable x y \<longleftrightarrow>
     (shape0 x = shape0 y \<or> shape0 x = 1 \<or> shape0 y = 1) \<and>
     (shape1 x = shape1 y \<or> shape1 x = 1 \<or> shape1 y = 1)"

text \<open>Every crop other than the \<open>i\<close>-th high resolution one fits the codes \<open>q\<close>.\<close>

definition crops_fit :: "tensor list \<Rightarrow> tensor list \<Rightarrow> nat \<Rightarrow> tensor \<Rightarrow> bool" where
  "crops_fit high low i q \<longleftrightarrow>
     (\<forall>v<length high. v \<noteq> i \<longrightarrow> broadcastable q (high ! v)) \<and>
     (\<forall>v<length low. broadcastable q (low ! v))"

text \<open>The sum of the sublosses of the other crops against the codes \<open>q\<close> of crop \<open>i\<close>.\<close>

definition swapped_sum :: "SwaVLoss \<Rightarrow> tensor list \<Rightarrow> tensor list \<Rightarrow> nat \<Rightarrow> tensor \<Rightarrow> real" where
  "swapped_sum self high low i q =
     (\<Sum>v\<in>{..<length high} - {i}. projr (subloss self (high ! v) q)) +
     (\<Sum>v<length low. projr (subloss self (low ! v) q))"

text \<open>The loss in the words of the specification, \<open>q i\<close> being the codes of crop \<open>i\<close>.\<close>

definition multi_crop_loss :: "SwaVLoss \<Rightarrow> tensor list \<Rightarrow> tensor list \<Rightarrow> (nat \<Rightarrow> tensor) \<Rightarrow> real" where
  "multi_crop_loss self high low q =
     (1 / real (length high)) *
     (\<Sum>i<length high. (1 / real (length high + length low - 1)) *
        swapped_sum self high low i (q i))"


text \<open>
  Rank \<open>k\<close> holds the block of \<open>n\<close> columns of \<open>G\<close> that starts at column \<open>k * n\<close>: inside
  \<open>sinkhorn\<close> the matrices are transposed, so a shard of the batch is a block of columns.
\<close>

definition shard :: "nat \<Rightarrow> nat \<Rightarrow> tensor \<Rightarrow> tensor \<Rightarrow> bool" where
  "shard k n L G \<longleftrightarrow>
     shape0 L = shape0 G \<and> shape1 L = n \<and>
     (\<forall>i<shape0 G. \<forall>j<n. entry L i j = entry G i (k * n + j))"

section \<open>Shapes\<close>

lemma shape_simps [simp]:
  "shape0 (torch_t x) = shape1 x" "shape1 (torch_t x) = shape0 x"
  "shape0 (torch_exp x) = shape0 x" "shape1 (torch_exp x) = shape1 x"
  "shape0 (div_scalar x c) = shape0 x" "shape1 (div_scalar x c) = shape1 x"
  "shape0 (mul_scalar x c) = shape0 x" "shape1 (mul_scalar x c) = shape1 x"
  "shape0 (idiv x y) = shape0 x" "shape1 (idiv x y) = shape1 x"
  "shape0 (sum_dim1 x) = shape0 x" "shape1 (sum_dim1 x) = 1"
  "shape0 (sum_dim0 x) = 1" "shape1 (sum_dim0 x) = shape1 x"
  by (simp_all add: torch_t_def torch_exp_def div_scalar_def mul_scalar_def idiv_def
      sum_dim1_def sum_dim0_def)

lemma shape_iteration [simp]:
  "shape0 (sinkhorn_iteration B Q) = shape0 Q" "shape1 (sinkhorn_iteration B Q) = shape1 Q"
  by (simp_all add: sinkhorn_iteration_def normalize_columns_def normalize_rows_def)

lemma shape_funpow_iteration [simp]:
  "shape0 ((sinkhorn_iteration B ^^ n) Q) = shape0 Q"
  "shape1 ((sinkhorn_iteration B ^^ n) Q) = shape1 Q"
  by (induction n) simp_all

section \<open>One process\<close>

lemma sinkhorn_loop_single:
  "length B = length Q \<Longrightarrow> \<forall>k<length Q. B ! k = shape1 (Q ! k) * W \<Longrightarrow> world_size \<le> 1 \<Longrightarrow>
   sinkhorn_loop n world_size B Q =
     map (\<lambda>q. (sinkhorn_iteration (real (shape1 q * W)) ^^ n) q) Q"
proof (induction n arbitrary: Q)
  case 0
  then show ?case by (simp add: map_idI)
next
  case (Suc n)
  let ?step = "\<lambda>q. sinkhorn_iteration (real (shape1 q * W)) q"
  have step: "map2 (\<lambda>q b. div_scalar q (real b))
      (map (\<lambda>q. idiv q (sum_dim0 q)) (map2 idiv Q (map sum_dim1 Q))) B = map ?step Q"
    using Suc.prems(1,2)
    by (intro nth_equalityI)
      (simp_all add: sinkhorn_iteration_def normalize_columns_def normalize_rows_def)
  have "sinkhorn_loop (Suc n) world_size B Q = sinkhorn_loop n world_size B (map ?step Q)"
    using Suc.prems(3) step by (simp add: Let_def)
  also have "\<dots> = map (\<lambda>q. (sinkhorn_iteration (real (shape1 q * W)) ^^ n) q) (map ?step Q)"
    using Suc.prems by (intro Suc.IH) simp_all
  also have "\<dots> = map (\<lambda>q. (sinkhorn_iteration (real (shape1 q * W)) ^^ Suc n) q) Q"
    by (simp add: funpow_swap1 comp_def)
  finally show ?case .
qed

lemma sinkhorn_single:
  assumes "\<not> (gather_distributed \<and> is_initialized d) \<or> length out \<le> 1"
  shows "sinkhorn d out iterations epsilon gather_distributed =
     map (\<lambda>out. sinkhorn_steps 1 out (nat iterations) epsilon) out"
proof (cases "out = []")
  case True
  then show ?thesis by (simp add: sinkhorn_def Let_def)
next
  case False
  let ?Q0 = "\<lambda>out. torch_t (torch_exp (div_scalar out epsilon))"
  let ?Q1 = "map (\<lambda>out. div_scalar (?Q0 out) (torch_sum (?Q0 out))) out"
  let ?B = "map (\<lambda>q. shape1 q * 1) ?Q1"
  have w: "sinkhorn_world_size d gather_distributed out = 1"
    using assms False by (cases out) (auto simp: sinkhorn_world_size_def get_world_size_def)
  have q1: "map2 div_scalar (map ?Q0 out) (map torch_sum (map ?Q0 out)) = ?Q1"
    by (intro nth_equalityI) simp_all
  have loop: "sinkhorn_loop (nat iterations) 1 ?B ?Q1 =
      map (\<lambda>q. (sinkhorn_iteration (real (shape1 q * 1)) ^^ nat iterations) q) ?Q1"
    by (rule sinkhorn_loop_single) simp_all
  have "sinkhorn d out iterations epsilon gather_distributed =
      map torch_t (map2 (\<lambda>q b. mul_scalar q (real b))
        (sinkhorn_loop (nat iterations) 1 ?B ?Q1) ?B)"
    unfolding sinkhorn_def Let_def w using q1 by simp
  also have "\<dots> = map (\<lambda>out. sinkhorn_steps 1 out (nat iterations) epsilon) out"
    unfolding loop
    by (intro nth_equalityI) (simp_all add: sinkhorn_steps_def Let_def)
  finally show ?thesis .
qed

lemma length_sinkhorn_loop [simp]:
  "length B = length Q \<Longrightarrow> length (sinkhorn_loop n world_size B Q) = length Q"
  by (induction n arbitrary: Q) (simp_all add: Let_def all_reduce_tensor_def)

lemma length_sinkhorn [simp]:
  "length (sinkhorn d out iterations epsilon gather_distributed) = length out"
  by (simp add: sinkhorn_def Let_def all_reduce_def)

section \<open>Claims on the constructor and the blur\<close>

text \<open>
  C9. The constructor raises exactly when \<open>sinkhorn_gather_distributed\<close> is set and
  \<open>torch.distributed\<close> is not available, and what it raises is a ValueError; in every
  other case it returns a module whose four attributes are the four arguments.
\<close>

theorem SwaVLoss_init_ValueError_iff:
  "(isl (SwaVLoss_init d T n e g) \<longleftrightarrow> g \<and> \<not> is_available d) \<and>
   (isl (SwaVLoss_init d T n e g) \<longrightarrow> SwaVLoss_init d T n e g = Inl ValueError) \<and>
   (\<not> (g \<and> \<not> is_available d) \<longrightarrow>
      (\<exists>self. SwaVLoss_init d T n e g = Inr self \<and> temperature self = T \<and>
         sinkhorn_iterations self = n \<and> sinkhorn_epsilon self = e \<and>
         sinkhorn_gather_distributed self = g))"
  by (simp add: SwaVLoss_init_def)

theorem SwaVLoss_init_ValueError_iff_witness:
  "SwaVLoss_init \<lparr>is_available = False, is_initialized = False\<rparr> (1/10) 3 (1/20) True
     = Inl ValueError \<and>
   (\<exists>self. SwaVLoss_init \<lparr>is_available = True, is_initialized = False\<rparr> (1/10) 3 (1/20) True
       = Inr self \<and> temperature self = 1/10 \<and> sinkhorn_iterations self = 3 \<and>
       sinkhorn_epsilon self = 1/20 \<and> sinkhorn_gather_distributed self = True)"
  using SwaVLoss_init_ValueError_iff
      [of "\<lparr>is_available = False, is_initialized = False\<rparr>" "1/10" 3 "1/20" True]
    SwaVLoss_init_ValueError_iff
      [of "\<lparr>is_available = True, is_initialized = False\<rparr>" "1/10" 3 "1/20" True]
  by simp

text \<open>
  C10. Whenever the call returns, the result is a tensor exactly when the sample is a
  tensor and a PIL image exactly when the sample is a PIL image; and for a PIL image,
  when the drawn number is not below \<open>prob\<close>, the call returns that very image.
\<close>

theorem GaussianBlur_call_preserves_type:
  "(GaussianBlur_call self env sample = Inr r \<longrightarrow>
      (isinstance_Tensor r \<longleftrightarrow> isinstance_Tensor sample) \<and>
      (isinstance_Image r \<longleftrightarrow> isinstance_Image sample)) \<and>
   (\<not> random_sample env < prob self \<longrightarrow>
      GaussianBlur_call self env (Image p) = Inr (Image p))"
  by (cases sample) (auto simp: GaussianBlur_call_def Let_def split: sum.splits if_splits)

theorem GaussianBlur_call_preserves_type_witness:
  "GaussianBlur_call \<lparr>prob = 1/2, sigmas = (1/5, 2)\<rparr>
      \<lparr>random_sample = 3/4, uniform = (\<lambda>a b. a), to_pil_image = (\<lambda>x::nat. Inr (x + 1)),
       to_tensor = (\<lambda>p::nat. Inr (p - 1)), gaussian_filter = (\<lambda>s p. Inr (p + 2))\<rparr>
      (Image 7) = Inr (Image 7) \<and>
   isinstance_Image (Image 7 :: (nat, nat) sample) \<and>
   \<not> isinstance_Tensor (Image 7 :: (nat, nat) sample)"
  using GaussianBlur_call_preserves_type
      [of "\<lparr>prob = 1/2, sigmas = (1/5, 2)\<rparr>"
          "\<lparr>random_sample = 3/4, uniform = (\<lambda>a b. a), to_pil_image = (\<lambda>x::nat. Inr (x + 1)),
            to_tensor = (\<lambda>p::nat. Inr (p - 1)), gaussian_filter = (\<lambda>s p. Inr (p + 2))\<rparr>"
          "Image 7" "Image 7" 7]
  by simp

section \<open>Claims on sinkhorn without gathering\<close>

text \<open>
  C7. With \<open>gather_distributed = False\<close> the world size is one whatever the state of
  \<open>torch.distributed\<close>, and the codes a rank gets for its \<open>out\<close> are those of a process on
  its own: they depend neither on the distributed state nor on what the other ranks pass.
\<close>

theorem sinkhorn_no_gather_independent:
  "sinkhorn_world_size d False (before @ [out] @ after) = 1 \<and>
   sinkhorn d (before @ [out] @ after) iterations epsilon False ! length before =
     hd (sinkhorn d' [out] iterations epsilon False)"
  by (simp add: sinkhorn_single sinkhorn_world_size_def nth_append)

section \<open>Entries and positivity\<close>

lemma sum_list_upt: "sum_list (map f [0..<n]) = (\<Sum>i<n. f i)"
  by (simp add: interv_sum_list_conv_sum_set_nat atLeast0LessThan)

lemma lessThan_2: "{..<2::nat} = {0, 1}"
  by auto

lemma entry_normalize_rows:
  "i < shape0 Q \<Longrightarrow>
   entry (normalize_rows Q) i j = entry Q i j / (\<Sum>j'<shape1 Q. entry Q i j')"
  by (auto simp: normalize_rows_def idiv_def sum_dim1_def)

lemma entry_normalize_columns:
  "j < shape1 Q \<Longrightarrow>
   entry (normalize_columns Q) i j = entry Q i j / (\<Sum>i'<shape0 Q. entry Q i' j)"
  by (auto simp: normalize_columns_def idiv_def sum_dim0_def)

lemma shape_normalize [simp]:
  "shape0 (normalize_rows Q) = shape0 Q" "shape1 (normalize_rows Q) = shape1 Q"
  "shape0 (normalize_columns Q) = shape0 Q" "shape1 (normalize_columns Q) = shape1 Q"
  by (simp_all add: normalize_rows_def normalize_columns_def)

lemma entry_div_scalar [simp]: "entry (div_scalar x c) i j = entry x i j / c"
  by (simp add: div_scalar_def)

lemma entry_mul_scalar [simp]: "entry (mul_scalar x c) i j = entry x i j * c"
  by (simp add: mul_scalar_def)

lemma entry_torch_t [simp]: "entry (torch_t x) i j = entry x j i"
  by (simp add: torch_t_def)

lemma entry_torch_exp [simp]: "entry (torch_exp x) i j = exp (entry x i j)"
  by (simp add: torch_exp_def)

lemma positive_normalize_rows: "positive Q \<Longrightarrow> positive (normalize_rows Q)"
  unfolding positive_def
proof (intro allI impI)
  fix i j assume pos: "\<forall>i<shape0 Q. \<forall>j<shape1 Q. 0 < entry Q i j"
    and i: "i < shape0 (normalize_rows Q)" and j: "j < shape1 (normalize_rows Q)"
  have "0 < (\<Sum>j'<shape1 Q. entry Q i j')"
    using pos i j by (intro sum_pos) auto
  then show "0 < entry (normalize_rows Q) i j"
    using pos i j by (simp add: entry_normalize_rows)
qed

lemma positive_normalize_columns: "positive Q \<Longrightarrow> positive (normalize_columns Q)"
  unfolding positive_def
proof (intro allI impI)
  fix i j assume pos: "\<forall>i<shape0 Q. \<forall>j<shape1 Q. 0 < entry Q i j"
    and i: "i < shape0 (normalize_columns Q)" and j: "j < shape1 (normalize_columns Q)"
  have "0 < (\<Sum>i'<shape0 Q. entry Q i' j)"
    using pos i j by (intro sum_pos) auto
  then show "0 < entry (normalize_columns Q) i j"
    using pos i j by (simp add: entry_normalize_columns)
qed

lemma positive_div_scalar: "positive Q \<Longrightarrow> 0 < c \<Longrightarrow> positive (div_scalar Q c)"
  by (simp add: positive_def)

lemma positive_iteration: "positive Q \<Longrightarrow> 0 < B \<Longrightarrow> positive (sinkhorn_iteration B Q)"
  unfolding sinkhorn_iteration_def
  by (intro positive_div_scalar positive_normalize_columns positive_normalize_rows)

lemma positive_funpow_iteration:
  "positive Q \<Longrightarrow> 0 < B \<Longrightarrow> positive ((sinkhorn_iteration B ^^ n) Q)"
  by (induction n) (simp_all add: positive_iteration)

lemma torch_sum_pos:
  assumes "positive Q" "0 < shape0 Q" "0 < shape1 Q"
  shows "0 < torch_sum Q"
  unfolding torch_sum_def using assms
  by (intro sum_pos) (auto simp: positive_def)

lemma column_sum_iteration:
  assumes "positive Q" "0 < shape0 Q" "j < shape1 Q" "B \<noteq> 0"
  shows "(\<Sum>i<shape0 Q. entry (sinkhorn_iteration B Q) i j * B) = 1"
proof -
  let ?R = "normalize_rows Q"
  let ?C = "\<Sum>i<shape0 Q. entry ?R i j"
  have "positive ?R" using assms(1) by (rule positive_normalize_rows)
  then have "0 < ?C"
    using assms(2,3) by (intro sum_pos) (auto simp: positive_def)
  have "(\<Sum>i<shape0 Q. entry (sinkhorn_iteration B Q) i j * B) =
      (\<Sum>i<shape0 Q. entry ?R i j / ?C)"
    using assms(3,4) by (simp add: sinkhorn_iteration_def entry_normalize_columns)
  also have "\<dots> = ?C / ?C"
    by (simp only: sum_divide_distrib)
  also have "\<dots> = 1"
    using \<open>0 < ?C\<close> by simp
  finally show ?thesis .
qed

lemma sinkhorn_steps_distribution:
  assumes "0 < shape1 out"
  shows "shape0 (sinkhorn_steps 1 out (Suc m) epsilon) = shape0 out"
    and "shape1 (sinkhorn_steps 1 out (Suc m) epsilon) = shape1 out"
    and "i < shape0 out \<Longrightarrow> j < shape1 out \<Longrightarrow> 0 \<le> entry (sinkhorn_steps 1 out (Suc m) epsilon) i j"
    and "i < shape0 out \<Longrightarrow> (\<Sum>j<shape1 out. entry (sinkhorn_steps 1 out (Suc m) epsilon) i j) = 1"
proof -
  let ?Q0 = "torch_t (torch_exp (div_scalar out epsilon))"
  let ?Q1 = "div_scalar ?Q0 (torch_sum ?Q0)"
  let ?B = "real (shape1 ?Q0 * 1)"
  let ?X = "(sinkhorn_iteration ?B ^^ m) ?Q1"
  have res: "sinkhorn_steps 1 out (Suc m) epsilon =
      torch_t (mul_scalar (sinkhorn_iteration ?B ?X) ?B)"
    by (simp add: sinkhorn_steps_def Let_def)
  show "shape0 (sinkhorn_steps 1 out (Suc m) epsilon) = shape0 out"
    and "shape1 (sinkhorn_steps 1 out (Suc m) epsilon) = shape1 out"
    unfolding res by simp_all
  have pos0: "positive ?Q0" by (simp add: positive_def)
  {
    assume i: "i < shape0 out"
    then have B: "0 < ?B" by simp
    have "0 < torch_sum ?Q0"
      using pos0 i assms by (intro torch_sum_pos) simp_all
    then have "positive ?Q1" using pos0 by (intro positive_div_scalar)
    then have X: "positive ?X" using B by (intro positive_funpow_iteration)
    then have "positive (sinkhorn_iteration ?B ?X)" using B by (intro positive_iteration)
    then have "j < shape1 out \<Longrightarrow> 0 < entry (sinkhorn_iteration ?B ?X) j i"
      using i by (simp add: positive_def)
    then have nonneg: "j < shape1 out \<Longrightarrow> 0 \<le> entry (sinkhorn_steps 1 out (Suc m) epsilon) i j"
      unfolding res using B by simp
    have "(\<Sum>j<shape0 ?X. entry (sinkhorn_iteration ?B ?X) j i * ?B) = 1"
      using X assms i B by (intro column_sum_iteration) simp_all
    then have "(\<Sum>j<shape1 out. entry (sinkhorn_steps 1 out (Suc m) epsilon) i j) = 1"
      unfolding res by simp
    note nonneg this
  }
  then show "i < shape0 out \<Longrightarrow> j < shape1 out \<Longrightarrow> 0 \<le> entry (sinkhorn_steps 1 out (Suc m) epsilon) i j"
    and "i < shape0 out \<Longrightarrow> (\<Sum>j<shape1 out. entry (sinkhorn_steps 1 out (Suc m) epsilon) i j) = 1"
    by blast+
qed

section \<open>The codes are distributions\<close>

text \<open>
  C8 (as amended). In single-device mode, for an input with at least one column,
  \<open>iterations \<ge> 1\<close> and \<open>epsilon > 0\<close>, the returned matrix has the shape of the input,
  every entry is nonnegative and every row sums to one.
\<close>

theorem sinkhorn_codes_distribution:
  assumes "1 \<le> iterations" "0 < epsilon" "0 < shape1 out"
    and "c = hd (sinkhorn d [out] iterations epsilon False)"
  shows "shape0 c = shape0 out \<and> shape1 c = shape1 out \<and>
    (\<forall>i<shape0 c. (\<forall>j<shape1 c. 0 \<le> entry c i j) \<and>
       (\<Sum>j<shape1 c. entry c i j) = 1)"
proof -
  obtain m where m: "nat iterations = Suc m"
    using assms(1) by (cases "nat iterations") auto
  have "c = sinkhorn_steps 1 out (Suc m) epsilon"
    using assms(4) m by (simp add: sinkhorn_single)
  then show ?thesis
    using sinkhorn_steps_distribution [OF assms(3), where m = m and epsilon = epsilon] by simp
qed

theorem sinkhorn_codes_distribution_witness:
  "(1::int) \<le> 3 \<and> (0::real) < 1/20 \<and> 0 < shape1 (zeros 2 3) \<and>
   shape0 (hd (sinkhorn \<lparr>is_available = True, is_initialized = False\<rparr>
      [zeros 2 3] 3 (1/20) False)) = 2 \<and>
   (\<Sum>j<3. entry (hd (sinkhorn \<lparr>is_available = True, is_initialized = False\<rparr>
      [zeros 2 3] 3 (1/20) False)) 0 j) = 1 \<and>
   (\<Sum>j<3. entry (hd (sinkhorn \<lparr>is_available = True, is_initialized = False\<rparr>
      [zeros 2 3] 3 (1/20) False)) 1 j) = 1"
proof -
  let ?c = "hd (sinkhorn \<lparr>is_available = True, is_initialized = False\<rparr>
      [zeros 2 3] 3 (1/20) False)"
  have z: "0 < shape1 (zeros 2 3)" "shape0 (zeros 2 3) = 2" "shape1 (zeros 2 3) = 3"
    by (simp_all add: zeros_def)
  have "shape0 ?c = shape0 (zeros 2 3) \<and> shape1 ?c = shape1 (zeros 2 3) \<and>
    (\<forall>i<shape0 ?c. (\<forall>j<shape1 ?c. 0 \<le> entry ?c i j) \<and> (\<Sum>j<shape1 ?c. entry ?c i j) = 1)"
    by (rule sinkhorn_codes_distribution [OF _ _ z(1) refl]) simp_all
  then have "shape0 ?c = 2" "\<forall>i<2. (\<Sum>j<3. entry ?c i j) = 1"
    unfolding z by auto
  then have "shape0 ?c = 2" "(\<Sum>j<3. entry ?c 0 j) = 1" "(\<Sum>j<3. entry ?c 1 j) = 1"
    by simp_all
  then show ?thesis
    using z(1) by simp
qed

text \<open>
  C8 as stated fails for a matrix without columns: the one row of the codes of a
  \<open>1 \<times> 0\<close> input sums to zero.
\<close>

theorem sinkhorn_codes_distribution_counterexample:
  "\<not> (\<forall>i<shape0 (hd (sinkhorn \<lparr>is_available = False, is_initialized = False\<rparr>
            [zeros 1 0] 1 1 False)).
        (\<Sum>j<shape1 (hd (sinkhorn \<lparr>is_available = False, is_initialized = False\<rparr>
            [zeros 1 0] 1 1 False)).
           entry (hd (sinkhorn \<lparr>is_available = False, is_initialized = False\<rparr>
            [zeros 1 0] 1 1 False)) i j) = 1)"
  by (simp add: sinkhorn_single sinkhorn_steps_def Let_def zeros_def)

section \<open>The cross entropy\<close>






section \<open>The steps of sinkhorn\<close>




section \<open>The forward pass\<close>

lemma length_all_reduce_tensor [simp]: "length (all_reduce_tensor xs) = length xs"
  by (simp add: all_reduce_tensor_def)

lemma shape_all_reduce_tensor [simp]:
  "k < length xs \<Longrightarrow> shape0 (all_reduce_tensor xs ! k) = shape0 (xs ! k)"
  "k < length xs \<Longrightarrow> shape1 (all_reduce_tensor xs ! k) = shape1 (xs ! k)"
  by (simp_all add: all_reduce_tensor_def)

lemma shape_sinkhorn_loop:
  "length B = length Q \<Longrightarrow> k < length Q \<Longrightarrow>
   shape0 (sinkhorn_loop n world_size B Q ! k) = shape0 (Q ! k) \<and>
   shape1 (sinkhorn_loop n world_size B Q ! k) = shape1 (Q ! k)"
proof (induction n arbitrary: Q)
  case 0
  then show ?case by simp
next
  case (Suc n)
  let ?s = "if 1 < world_size then all_reduce_tensor (map sum_dim1 Q) else map sum_dim1 Q"
  let ?Q = "map2 (\<lambda>q b. div_scalar q (real b)) (map (\<lambda>q. idiv q (sum_dim0 q)) (map2 idiv Q ?s)) B"
  have len: "length ?s = length Q" by simp
  have lenQ: "length ?Q = length Q" using Suc.prems(1) len by simp
  have "shape0 (?Q ! k) = shape0 (Q ! k) \<and> shape1 (?Q ! k) = shape1 (Q ! k)"
    using Suc.prems len by simp
  moreover have "shape0 (sinkhorn_loop n world_size B ?Q ! k) = shape0 (?Q ! k) \<and>
      shape1 (sinkhorn_loop n world_size B ?Q ! k) = shape1 (?Q ! k)"
    using Suc.prems lenQ by (intro Suc.IH) simp_all
  ultimately show ?case
    by (simp add: Let_def)
qed

lemma shape_sinkhorn:
  assumes "k < length out"
  shows "shape0 (sinkhorn d out iterations epsilon gather_distributed ! k) = shape0 (out ! k)"
    and "shape1 (sinkhorn d out iterations epsilon gather_distributed ! k) = shape1 (out ! k)"
proof -
  let ?w = "sinkhorn_world_size d gather_distributed out"
  let ?Q0 = "map (\<lambda>out. torch_t (torch_exp (div_scalar out epsilon))) out"
  let ?s = "if 1 < ?w then all_reduce (map torch_sum ?Q0) else map torch_sum ?Q0"
  let ?Q1 = "map2 div_scalar ?Q0 ?s"
  let ?B = "map (\<lambda>q. shape1 q * ?w) ?Q1"
  have len: "length ?s = length out" by (simp add: all_reduce_def)
  then have len1: "length ?Q1 = length out" by simp
  have "shape0 (sinkhorn_loop (nat iterations) ?w ?B ?Q1 ! k) = shape0 (?Q1 ! k) \<and>
      shape1 (sinkhorn_loop (nat iterations) ?w ?B ?Q1 ! k) = shape1 (?Q1 ! k)"
    using assms len1 by (intro shape_sinkhorn_loop) simp_all
  moreover have "shape0 (?Q1 ! k) = shape1 (out ! k)" "shape1 (?Q1 ! k) = shape0 (out ! k)"
    using assms len by simp_all
  ultimately show "shape0 (sinkhorn d out iterations epsilon gather_distributed ! k) = shape0 (out ! k)"
    and "shape1 (sinkhorn d out iterations epsilon gather_distributed ! k) = shape1 (out ! k)"
    using assms len1 by (simp_all add: sinkhorn_def Let_def)
qed

lemma subloss_cases:
  "subloss self z q =
     (if broadcastable q z then Inr (projr (subloss self z q)) else Inl RuntimeError)"
  by (auto simp: subloss_def torch_mul_def broadcast_dim_def broadcastable_def log_softmax_def
      split: sum.splits)

lemma high_loop_cases:
  "high_loop self high i q vs sub =
     (if \<forall>v\<in>set vs. v \<noteq> i \<longrightarrow> broadcastable q (high ! v)
      then Inr (map (\<lambda>x. x + (\<Sum>v\<leftarrow>vs. if v \<noteq> i then projr (subloss self (high ! v) q) else 0)) sub)
      else Inl RuntimeError)"
proof (induction vs arbitrary: sub)
  case Nil
  then show ?case by (simp add: map_idI)
next
  case (Cons v vs)
  show ?case
  proof (cases "v \<noteq> i")
    case True
    show ?thesis
    proof (cases "broadcastable q (high ! v)")
      case b: True
      then obtain s where s: "subloss self (high ! v) q = Inr s"
        using subloss_cases [of self "high ! v" q] by simp
      show ?thesis
        using True b s by (auto simp: Cons.IH comp_def add.assoc)
    next
      case b: False
      then have "subloss self (high ! v) q = Inl RuntimeError"
        using subloss_cases [of self "high ! v" q] by simp
      then show ?thesis using True b by simp
    qed
  next
    case False
    then show ?thesis by (auto simp: Cons.IH)
  qed
qed

lemma low_loop_cases:
  "low_loop self low q vs sub =
     (if \<forall>v\<in>set vs. broadcastable q (low ! v)
      then Inr (map (\<lambda>x. x + (\<Sum>v\<leftarrow>vs. projr (subloss self (low ! v) q))) sub)
      else Inl RuntimeError)"
proof (induction vs arbitrary: sub)
  case Nil
  then show ?case by (simp add: map_idI)
next
  case (Cons v vs)
  show ?case
  proof (cases "broadcastable q (low ! v)")
    case b: True
    then obtain s where s: "subloss self (low ! v) q = Inr s"
      using subloss_cases [of self "low ! v" q] by simp
    show ?thesis
      using b s by (simp add: Cons.IH comp_def add.assoc)
  next
    case b: False
    then have "subloss self (low ! v) q = Inl RuntimeError"
      using subloss_cases [of self "low ! v" q] by simp
    then show ?thesis using b by simp
  qed
qed

lemma sum_list_except:
  "(\<Sum>v\<leftarrow>[0..<n]. if v \<noteq> i then f v else 0) = (\<Sum>v\<in>{..<n} - {i}. f v)"
proof -
  have "(\<Sum>v\<leftarrow>[0..<n]. if v \<noteq> i then f v else 0) = (\<Sum>v<n. if v \<noteq> i then f v else 0)"
    by (rule sum_list_upt)
  also have "\<dots> = (\<Sum>v\<in>{..<n} - {i}. f v)"
    by (intro sum.mono_neutral_cong_right) auto
  finally show ?thesis .
qed

lemma inner_loops:
  "(case high_loop self high i q [0..<length high] (new_zeros 1) of
      Inl e \<Rightarrow> Inl e
    | Inr sub \<Rightarrow> low_loop self low q [0..<length low] sub) =
   (if crops_fit high low i q then Inr [swapped_sum self high low i q] else Inl RuntimeError)"
  by (auto simp: high_loop_cases low_loop_cases crops_fit_def swapped_sum_def new_zeros_def
      sum_list_except sum_list_upt)

lemma crop_loop_cases:
  assumes "\<forall>i\<in>set is. codes d peers self high queue i = Inr (q i)"
  shows "crop_loop d peers self high low queue n_crops is [a] =
     (if \<forall>i\<in>set is. crops_fit high low i (q i)
      then Inr [a + (\<Sum>i\<leftarrow>is. swapped_sum self high low i (q i) / real_of_int (n_crops - 1))]
      else Inl RuntimeError)"
  using assms
proof (induction "is" arbitrary: a)
  case Nil
  then show ?case by simp
next
  case (Cons i "is")
  have c: "codes d peers self high queue i = Inr (q i)"
    using Cons.prems by simp
  have rest: "\<forall>i\<in>set is. codes d peers self high queue i = Inr (q i)"
    using Cons.prems by simp
  show ?case
  proof (cases "crops_fit high low i (q i)")
    case True
    have "crop_loop d peers self high low queue n_crops (i # is) [a] =
        crop_loop d peers self high low queue n_crops is
          [a + swapped_sum self high low i (q i) / real_of_int (n_crops - 1)]"
      using inner_loops [where self = self and high = high and i = i and q = "q i" and low = low] True c
      by (auto split: sum.splits)
    then show ?thesis
      using True by (simp add: Cons.IH [OF rest] add.assoc)
  next
    case False
    then show ?thesis
      using inner_loops [where self = self and high = high and i = i and q = "q i" and low = low] c by (auto split: sum.splits)
  qed
qed

lemma forward_cases:
  assumes "high \<noteq> []" "\<forall>i<length high. codes d peers self high queue i = Inr (q i)"
  shows "forward d peers self high low queue =
     (if \<forall>i<length high. crops_fit high low i (q i)
      then Inr [multi_crop_loss self high low q] else Inl RuntimeError)"
proof -
  let ?n = "int (length high) + int (length low)"
  have n: "real_of_int (?n - 1) = real (length high + length low - 1)"
    using assms(1) by (cases high) simp_all
  have c: "\<forall>i\<in>set [0..<length high]. codes d peers self high queue i = Inr (q i)"
    using assms(2) by simp
  have "(\<Sum>i<length high. swapped_sum self high low i (q i) / real_of_int (?n - 1)) / real (length high)
      = multi_crop_loss self high low q"
    unfolding n multi_crop_loss_def by (simp add: sum_distrib_left sum_divide_distrib mult.commute)
  then show ?thesis
    using assms(1)
    by (simp add: forward_def Let_def new_zeros_def crop_loop_cases [OF c] sum_list_upt)
qed

lemma codes_None:
  "codes d peers self high None i =
     Inr (sinkhorn d (fst (peers i) @ [high ! i] @ snd (peers i)) (sinkhorn_iterations self)
       (sinkhorn_epsilon self) (sinkhorn_gather_distributed self) ! length (fst (peers i)))"
  by (simp add: codes_def)

lemma shape_sinkhorn_rank [simp]:
  "shape0 (sinkhorn d (before @ x # after) n e g ! length before) = shape0 x"
  "shape1 (sinkhorn d (before @ x # after) n e g ! length before) = shape1 x"
  by (simp_all add: shape_sinkhorn)

lemma crops_fit_shape:
  "shape0 q = shape0 q' \<Longrightarrow> shape1 q = shape1 q' \<Longrightarrow>
   crops_fit high low i q = crops_fit high low i q'"
  by (simp add: crops_fit_def broadcastable_def)

lemma forward_None_cases:
  assumes "high \<noteq> []"
  shows "forward d peers self high low None =
     (if \<forall>i<length high. crops_fit high low i (high ! i)
      then Inr [multi_crop_loss self high low
        (\<lambda>i. sinkhorn d (fst (peers i) @ [high ! i] @ snd (peers i)) (sinkhorn_iterations self)
          (sinkhorn_epsilon self) (sinkhorn_gather_distributed self) ! length (fst (peers i)))]
      else Inl RuntimeError)"
proof -
  let ?q = "\<lambda>i. sinkhorn d (fst (peers i) @ [high ! i] @ snd (peers i)) (sinkhorn_iterations self)
          (sinkhorn_epsilon self) (sinkhorn_gather_distributed self) ! length (fst (peers i))"
  have fit: "crops_fit high low i (?q i) = crops_fit high low i (high ! i)" for i
    by (rule crops_fit_shape) simp_all
  have "forward d peers self high low None =
     (if \<forall>i<length high. crops_fit high low i (?q i)
      then Inr [multi_crop_loss self high low ?q] else Inl RuntimeError)"
    by (rule forward_cases [OF assms]) (simp add: codes_None)
  then show ?thesis
    by (simp only: fit)
qed


text \<open>
  C5 (as amended). The forward pass has no shape check of its own. Without a queue and
  with at least one high resolution output it raises exactly when some other crop does
  not fit the codes of a high resolution crop in the element-wise product of \<open>subloss\<close>,
  and what is raised is the product's RuntimeError; shapes that differ but broadcast
  yield a loss.
\<close>

theorem forward_raises_iff:
  assumes "high \<noteq> []"
  shows "(isl (forward d peers self high low None) \<longleftrightarrow>
            \<not> (\<forall>i<length high. crops_fit high low i (high ! i))) \<and>
         (isl (forward d peers self high low None) \<longrightarrow>
            forward d peers self high low None = Inl RuntimeError)"
  by (simp add: forward_None_cases [OF assms])









theorem forward_raises_iff_witness:
  "[zeros 2 2] \<noteq> [] \<and>
   forward \<lparr>is_available = True, is_initialized = False\<rparr> (\<lambda>_. ([], []))
     \<lparr>temperature = 1/10, sinkhorn_iterations = 3, sinkhorn_epsilon = 1/20,
      sinkhorn_gather_distributed = False\<rparr>
     [zeros 2 2] [zeros 2 3] None = Inl RuntimeError"
proof -
  have "\<not> (\<forall>i<length [zeros 2 2]. crops_fit [zeros 2 2] [zeros 2 3] i ([zeros 2 2] ! i))"
    by (simp add: crops_fit_def broadcastable_def zeros_def)
  then show ?thesis
    using forward_raises_iff [of "[zeros 2 2]" "\<lparr>is_available = True, is_initialized = False\<rparr>"
        "\<lambda>_. ([], [])" "\<lparr>temperature = 1/10, sinkhorn_iterations = 3, sinkhorn_epsilon = 1/20,
      sinkhorn_gather_distributed = False\<rparr>" "[zeros 2 3]"]
    by blast
qed

lemma subloss_one_column_zeros:
  assumes "shape0 q = 2" "shape1 q = 2"
  shows "subloss self (zeros 2 1) q = Inr 0"
  using assms
  by (simp add: subloss_def torch_mul_def broadcast_dim_def log_softmax_def zeros_def
      div_scalar_def sum_rows_def torch_mean_def)

text \<open>
  C5 as stated fails: a low resolution output with one prototype column against codes
  with two is broadcast by the product, and the forward pass returns a loss.
\<close>

theorem forward_shape_check_counterexample:
  "shape1 (zeros 2 1) \<noteq> shape1 (zeros 2 2) \<and>
   forward \<lparr>is_available = True, is_initialized = False\<rparr> (\<lambda>_. ([], []))
     \<lparr>temperature = 1/10, sinkhorn_iterations = 3, sinkhorn_epsilon = 1/20,
      sinkhorn_gather_distributed = False\<rparr>
     [zeros 2 2] [zeros 2 1] None = Inr [0]"
proof -
  let ?d = "\<lparr>is_available = True, is_initialized = False\<rparr>"
  let ?self = "\<lparr>temperature = 1/10, sinkhorn_iterations = 3, sinkhorn_epsilon = 1/20,
      sinkhorn_gather_distributed = False\<rparr>"
  let ?q = "\<lambda>i. sinkhorn ?d (fst ([]::tensor list, []::tensor list) @ [[zeros 2 2] ! i]
        @ snd ([]::tensor list, []::tensor list))
      (sinkhorn_iterations ?self) (sinkhorn_epsilon ?self) (sinkhorn_gather_distributed ?self)
      ! length (fst ([]::tensor list, []::tensor list))"
  have fit: "\<forall>i<length [zeros 2 2]. crops_fit [zeros 2 2] [zeros 2 1] i ([zeros 2 2] ! i)"
    by (simp add: crops_fit_def broadcastable_def zeros_def)
  have q: "shape0 (?q 0) = 2" "shape1 (?q 0) = 2"
    by (simp_all add: shape_sinkhorn zeros_def)
  have "swapped_sum ?self [zeros 2 2] [zeros 2 1] 0 (?q 0) = 0"
    unfolding swapped_sum_def using subloss_one_column_zeros [OF q, of ?self]
    by (simp add: lessThan_Suc del: One_nat_def)
  then have "multi_crop_loss ?self [zeros 2 2] [zeros 2 1] ?q = 0"
    by (simp add: multi_crop_loss_def)
  moreover have "forward ?d (\<lambda>_. ([], [])) ?self [zeros 2 2] [zeros 2 1] None =
      Inr [multi_crop_loss ?self [zeros 2 2] [zeros 2 1] ?q]"
    using forward_None_cases [of "[zeros 2 2]" ?d "\<lambda>_. ([], [])" ?self "[zeros 2 1]"] fit
    by simp
  ultimately show ?thesis
    by (simp add: zeros_def)
qed


section \<open>Distributed consistency\<close>

lemma block_index: "k < W \<Longrightarrow> j < n \<Longrightarrow> k * n + j < W * (n::nat)"
proof -
  assume "k < W" "j < n"
  then have "k * n + j < Suc k * n" by simp
  also have "\<dots> \<le> W * n" using \<open>k < W\<close> by (intro mult_le_mono1) simp
  finally show ?thesis .
qed

lemma sum_blocks:
  fixes g :: "nat \<Rightarrow> real"
  shows "(\<Sum>k<W. \<Sum>j<n. g (k * n + j)) = (\<Sum>j<W * n. g j)"
proof -
  have "(\<Sum>j<n. g (k * n + j)) = sum g {k * n..<k * n + n}" for k
    using sum.shift_bounds_nat_ivl [of g 0 "k * n" n]
    by (simp add: atLeast0LessThan add.commute)
  then show ?thesis
    using sum.nat_group [of g n W] by simp
qed

lemma sum_list_nth: "(\<Sum>x\<leftarrow>xs. f x) = (\<Sum>k<length xs. f (xs ! k))"
  by (induction xs rule: rev_induct) (simp_all add: nth_append)

lemma row_sum_shards:
  assumes "\<forall>k<length Q. shard k n (Q ! k) G" "shape1 G = length Q * n" "i < shape0 G"
  shows "(\<Sum>L\<leftarrow>Q. \<Sum>j<shape1 L. entry L i j) = (\<Sum>j<shape1 G. entry G i j)"
proof -
  have "(\<Sum>L\<leftarrow>Q. \<Sum>j<shape1 L. entry L i j) =
      (\<Sum>k<length Q. \<Sum>j<shape1 (Q ! k). entry (Q ! k) i j)"
    by (rule sum_list_nth)
  also have "\<dots> = (\<Sum>k<length Q. \<Sum>j<n. entry G i (k * n + j))"
    using assms(1,3) by (intro sum.cong refl) (auto simp: shard_def)
  also have "\<dots> = (\<Sum>j<shape1 G. entry G i j)"
    unfolding assms(2) by (rule sum_blocks)
  finally show ?thesis .
qed

lemma total_sum_shards:
  assumes "\<forall>k<length Q. shard k n (Q ! k) G" "shape1 G = length Q * n"
  shows "(\<Sum>L\<leftarrow>Q. torch_sum L) = torch_sum G"
proof -
  have "(\<Sum>L\<leftarrow>Q. torch_sum L) = (\<Sum>k<length Q. torch_sum (Q ! k))"
    by (rule sum_list_nth)
  also have "\<dots> = (\<Sum>k<length Q. \<Sum>i<shape0 G. \<Sum>j<n. entry G i (k * n + j))"
    using assms(1) by (intro sum.cong refl) (auto simp: shard_def torch_sum_def)
  also have "\<dots> = (\<Sum>i<shape0 G. \<Sum>k<length Q. \<Sum>j<n. entry G i (k * n + j))"
    by (rule sum.swap)
  also have "\<dots> = torch_sum G"
    unfolding torch_sum_def assms(2) by (simp only: sum_blocks)
  finally show ?thesis .
qed

lemma shard_div_scalar: "shard k n L G \<Longrightarrow> shard k n (div_scalar L c) (div_scalar G c)"
  by (simp add: shard_def)

lemma shard_normalize_columns:
  assumes "shard k n L G" "k < W" "shape1 G = W * n"
  shows "shard k n (idiv L (sum_dim0 L)) (normalize_columns G)"
  unfolding shard_def
proof (intro conjI allI impI)
  show "shape0 (idiv L (sum_dim0 L)) = shape0 (normalize_columns G)"
    and "shape1 (idiv L (sum_dim0 L)) = n"
    using assms(1) by (simp_all add: shard_def)
next
  fix i j assume i: "i < shape0 (normalize_columns G)" and j: "j < n"
  have kj: "k * n + j < shape1 G"
    unfolding assms(3) using assms(2) j by (rule block_index)
  have "entry (idiv L (sum_dim0 L)) i j = entry L i j / (\<Sum>i'<shape0 L. entry L i' j)"
    using entry_normalize_columns [of j L i] j assms(1)
    by (simp add: normalize_columns_def shard_def)
  also have "\<dots> = entry G i (k * n + j) / (\<Sum>i'<shape0 G. entry G i' (k * n + j))"
    using assms(1) i j by (simp add: shard_def)
  also have "\<dots> = entry (normalize_columns G) i (k * n + j)"
    using kj by (simp add: entry_normalize_columns)
  finally show "entry (idiv L (sum_dim0 L)) i j = entry (normalize_columns G) i (k * n + j)" .
qed

lemma shard_normalize_rows:
  assumes "\<forall>k<length Q. shard k n (Q ! k) G" "shape1 G = length Q * n" "k < length Q"
  shows "shard k n (idiv (Q ! k) (all_reduce_tensor (map sum_dim1 Q) ! k)) (normalize_rows G)"
  unfolding shard_def
proof (intro conjI allI impI)
  have s: "shard k n (Q ! k) G" using assms(1,3) by simp
  show "shape0 (idiv (Q ! k) (all_reduce_tensor (map sum_dim1 Q) ! k)) = shape0 (normalize_rows G)"
    and "shape1 (idiv (Q ! k) (all_reduce_tensor (map sum_dim1 Q) ! k)) = n"
    using s by (simp_all add: shard_def)
  fix i j assume i: "i < shape0 (normalize_rows G)" and j: "j < n"
  then have i': "i < shape0 G" by simp
  let ?R = "all_reduce_tensor (map sum_dim1 Q) ! k"
  have R: "shape0 ?R = shape0 G" "shape1 ?R = 1"
    "entry ?R i 0 = (\<Sum>L\<leftarrow>Q. \<Sum>j<shape1 L. entry L i j)"
    using assms(3) s
    by (simp_all add: all_reduce_tensor_def shard_def sum_dim1_def comp_def)
  have "entry (idiv (Q ! k) ?R) i j = entry (Q ! k) i j / entry ?R i 0"
    using R(1,2) i' by (auto simp: idiv_def)
  also have "\<dots> = entry G i (k * n + j) / (\<Sum>j<shape1 G. entry G i j)"
    using s i' j row_sum_shards [OF assms(1,2) i'] by (simp add: R(3) shard_def)
  also have "\<dots> = entry (normalize_rows G) i (k * n + j)"
    using i' by (simp add: entry_normalize_rows)
  finally show "entry (idiv (Q ! k) ?R) i j = entry (normalize_rows G) i (k * n + j)" .
qed

lemma sinkhorn_loop_shards:
  assumes "1 < world_size" "world_size = length Q" "length B = length Q"
    "\<forall>k<length Q. B ! k = n * length Q"
    "\<forall>k<length Q. shard k n (Q ! k) G" "shape1 G = length Q * n" "k < length Q"
  shows "shard k n (sinkhorn_loop m world_size B Q ! k)
     ((sinkhorn_iteration (real (length Q * n)) ^^ m) G)"
  using assms(2-)
proof (induction m arbitrary: Q G)
  case 0
  then show ?case by simp
next
  case (Suc m)
  let ?R = "all_reduce_tensor (map sum_dim1 Q)"
  let ?Q' = "map2 (\<lambda>q b. div_scalar q (real b))
      (map (\<lambda>q. idiv q (sum_dim0 q)) (map2 idiv Q ?R)) B"
  let ?G' = "sinkhorn_iteration (real (length Q * n)) G"
  have len: "length ?Q' = length Q"
    using Suc.prems(2) by simp
  have step: "shard j n (?Q' ! j) ?G'" if j: "j < length Q" for j
  proof -
    have "?Q' ! j = div_scalar (idiv (idiv (Q ! j) (?R ! j)) (sum_dim0 (idiv (Q ! j) (?R ! j))))
        (real (length Q * n))"
      using j Suc.prems(2,3) by (simp add: mult.commute)
    moreover have "shard j n (idiv (Q ! j) (?R ! j)) (normalize_rows G)"
      using Suc.prems(4,5) j by (rule shard_normalize_rows)
    then have "shard j n (idiv (idiv (Q ! j) (?R ! j)) (sum_dim0 (idiv (Q ! j) (?R ! j))))
        (normalize_columns (normalize_rows G))"
      using j by (rule shard_normalize_columns) (simp add: Suc.prems(5))
    ultimately show ?thesis
      unfolding sinkhorn_iteration_def by (simp add: shard_div_scalar)
  qed
  have "shard k n (sinkhorn_loop m world_size B ?Q' ! k)
      ((sinkhorn_iteration (real (length ?Q' * n)) ^^ m) ?G')"
    using Suc.prems step len by (intro Suc.IH) simp_all
  then have "shard k n (sinkhorn_loop m world_size B ?Q' ! k)
      ((sinkhorn_iteration (real (length Q * n)) ^^ m) ?G')"
    unfolding len .
  then show ?case
    using assms(1) by (simp add: Let_def funpow_swap1)
qed

lemma concat_shards_shape:
  assumes "out \<noteq> []" "\<forall>x\<in>set out. shape0 x = n \<and> shape1 x = K"
  shows "shape0 (concat_shards out) = length out * n \<and> shape1 (concat_shards out) = K"
  using assms
proof (induction out rule: concat_shards.induct)
  case 1
  then show ?case by simp
next
  case (2 x)
  then show ?case by simp
next
  case (3 x y ys)
  have x: "shape0 x = n" "shape1 x = K"
    using "3.prems"(2) by simp_all
  have "\<forall>x\<in>set (y # ys). shape0 x = n \<and> shape1 x = K"
    using "3.prems"(2) by simp
  then have "shape0 (concat_shards (y # ys)) = length (y # ys) * n"
    using "3.IH" by blast
  then show ?case
    by (simp add: cat_rows_def x)
qed

lemma concat_shards_entry:
  assumes "\<forall>x\<in>set out. shape0 x = n \<and> shape1 x = K" "k < length out" "i < n"
  shows "entry (concat_shards out) (k * n + i) j = entry (out ! k) i j"
  using assms(1,2)
proof (induction out arbitrary: k rule: concat_shards.induct)
  case 1
  then show ?case by simp
next
  case (2 x)
  then show ?case by simp
next
  case (3 x y ys)
  have x: "shape0 x = n"
    using "3.prems"(1) by simp
  have rest: "\<forall>x\<in>set (y # ys). shape0 x = n \<and> shape1 x = K"
    using "3.prems"(1) by simp
  show ?case
  proof (cases k)
    case 0
    then show ?thesis using assms(3) by (simp add: cat_rows_def x)
  next
    case (Suc k')
    have k': "k' < length (y # ys)"
      using "3.prems"(2) Suc by simp
    have "entry (concat_shards (y # ys)) (k' * n + i) j = entry ((y # ys) ! k') i j"
      using rest k' by (rule "3.IH")
    moreover have "k * n + i - n = k' * n + i" "\<not> k * n + i < n"
      using Suc by simp_all
    ultimately show ?thesis
      unfolding concat_shards.simps cat_rows_def using Suc by (simp add: x)
  qed
qed

lemma shard_initial:
  assumes "\<forall>x\<in>set out. shape0 x = n \<and> shape1 x = K" "k < length out"
  shows "shard k n (torch_t (torch_exp (div_scalar (out ! k) epsilon)))
     (torch_t (torch_exp (div_scalar (concat_shards out) epsilon)))"
proof -
  have ne: "out \<noteq> []" using assms(2) by auto
  have "out ! k \<in> set out" using assms(2) by simp
  then have x: "shape0 (out ! k) = n" "shape1 (out ! k) = K"
    using assms(1) by blast+
  have G: "shape0 (concat_shards out) = length out * n" "shape1 (concat_shards out) = K"
    using concat_shards_shape [OF ne assms(1)] by blast+
  have e: "entry (concat_shards out) (k * n + i) j = entry (out ! k) i j" if "i < n" for i j
    using assms that by (rule concat_shards_entry)
  show ?thesis
    unfolding shard_def by (simp add: x G e)
qed

lemma nth_all_reduce: "j < length xs \<Longrightarrow> all_reduce xs ! j = sum_list xs"
  by (simp add: all_reduce_def)

lemma length_all_reduce [simp]: "length (all_reduce xs) = length xs"
  by (simp add: all_reduce_def)

lemma sinkhorn_gather_shard:
  assumes "is_initialized d" "\<forall>x\<in>set out. shape0 x = n \<and> shape1 x = K" "1 < length out"
    "k < length out"
  shows "\<exists>L. sinkhorn d out iterations epsilon True ! k =
     torch_t (mul_scalar L (real (length out * n))) \<and>
     shard k n L ((sinkhorn_iteration (real (length out * n)) ^^ nat iterations)
       (div_scalar (torch_t (torch_exp (div_scalar (concat_shards out) epsilon)))
          (torch_sum (torch_t (torch_exp (div_scalar (concat_shards out) epsilon))))))"
proof -
  let ?f = "\<lambda>out. torch_t (torch_exp (div_scalar out epsilon))"
  let ?W = "length out"
  let ?G0 = "?f (concat_shards out)"
  define Q0 where "Q0 = map ?f out"
  define Q1 where "Q1 = map2 div_scalar Q0 (all_reduce (map torch_sum Q0))"
  define B where "B = map (\<lambda>q. shape1 q * ?W) Q1"
  define L where "L = sinkhorn_loop (nat iterations) ?W B Q1"
  have ne: "out \<noteq> []" using assms(3) by auto
  have G: "shape0 (concat_shards out) = ?W * n"
    using concat_shards_shape [OF ne assms(2)] by blast
  have G0: "shape1 ?G0 = ?W * n"
    unfolding shape_simps by (rule G)
  have len0: "length Q0 = ?W"
    by (simp add: Q0_def)
  have sh0: "\<forall>j<length Q0. shard j n (Q0 ! j) ?G0"
    unfolding len0 using shard_initial [OF assms(2)] by (simp add: Q0_def)
  have total: "sum_list (map torch_sum Q0) = torch_sum ?G0"
    using sh0 by (rule total_sum_shards) (simp add: G len0)
  have len1: "length Q1 = ?W"
    by (simp add: Q1_def len0)
  have Q1: "Q1 ! j = div_scalar (Q0 ! j) (torch_sum ?G0)" if "j < ?W" for j
    using that by (simp add: Q1_def len0 nth_all_reduce total)
  have sh1: "shard j n (Q1 ! j) (div_scalar ?G0 (torch_sum ?G0))" if "j < ?W" for j
    unfolding Q1 [OF that] using sh0 that len0 by (intro shard_div_scalar) simp
  have lenB: "length B = ?W"
    by (simp add: B_def len1)
  have B: "B ! j = n * ?W" if "j < ?W" for j
    using sh1 [OF that] that by (simp add: B_def len1 shard_def)
  have sh: "shard k n (L ! k) ((sinkhorn_iteration (real (length Q1 * n)) ^^ nat iterations)
         (div_scalar ?G0 (torch_sum ?G0)))"
    unfolding L_def
  proof (rule sinkhorn_loop_shards)
    show "1 < ?W" by (rule assms(3))
    show "?W = length Q1" by (simp add: len1)
    show "length B = length Q1" by (simp add: len1 lenB)
    show "\<forall>k<length Q1. B ! k = n * length Q1" by (simp add: len1 B)
    show "\<forall>k<length Q1. shard k n (Q1 ! k) (div_scalar ?G0 (torch_sum ?G0))"
      by (simp add: len1 sh1)
    show "shape1 (div_scalar ?G0 (torch_sum ?G0)) = length Q1 * n"
      by (simp add: len1 G)
    show "k < length Q1" by (simp add: len1 assms(4))
  qed
  have w: "sinkhorn_world_size d True out = ?W"
    using assms(1) by (simp add: sinkhorn_world_size_def get_world_size_def)
  have lenL: "length L = ?W"
    by (simp add: L_def lenB len1)
  have "sinkhorn d out iterations epsilon True =
      map torch_t (map2 (\<lambda>q b. mul_scalar q (real b)) L B)"
    unfolding sinkhorn_def Let_def w L_def B_def Q1_def Q0_def using assms(3) by simp
  then have "sinkhorn d out iterations epsilon True ! k =
      torch_t (mul_scalar (L ! k) (real (B ! k)))"
    using assms(4) by (simp add: lenL lenB)
  then have "sinkhorn d out iterations epsilon True ! k =
      torch_t (mul_scalar (L ! k) (real (?W * n)))"
    by (simp add: B [OF assms(4)] mult.commute)
  then show ?thesis
    using sh unfolding len1 by blast
qed

lemma shape_sinkhorn_steps [simp]:
  "shape0 (sinkhorn_steps W out m epsilon) = shape0 out"
  "shape1 (sinkhorn_steps W out m epsilon) = shape1 out"
  by (simp_all add: sinkhorn_steps_def Let_def)

lemma entry_sinkhorn_steps:
  "entry (sinkhorn_steps W out m epsilon) i j =
     entry ((sinkhorn_iteration (real (shape0 out * W)) ^^ m)
       (div_scalar (torch_t (torch_exp (div_scalar out epsilon)))
          (torch_sum (torch_t (torch_exp (div_scalar out epsilon)))))) j i *
     real (shape0 out * W)"
  by (simp add: sinkhorn_steps_def Let_def)

lemma same_tensor_rows_from_0:
  "shape0 x = n \<Longrightarrow> same_tensor x (rows_from 0 n x)"
  by (simp add: same_tensor_def rows_from_def)

text \<open>
  C1. Let \<open>torch.distributed\<close> be initialised and let the ranks hold shards \<open>out\<close> of equal
  shape \<open>n \<times> K\<close>. With \<open>gather_distributed = True\<close>, where \<open>all_reduce\<close> sums \<open>sum_Q\<close> and
  \<open>sum_of_rows\<close> over the ranks, rank \<open>k\<close> gets exactly rows \<open>k * n\<close> to \<open>k * n + n - 1\<close> of the
  codes that a single-device run (\<open>gather_distributed = False\<close>) returns on the row
  concatenation of the shards, with the same iterations and epsilon.
\<close>

theorem sinkhorn_distributed_consistent:
  assumes "is_initialized d" "\<forall>x\<in>set out. shape0 x = n \<and> shape1 x = K" "k < length out"
  shows "same_tensor (sinkhorn d out iterations epsilon True ! k)
     (rows_from (k * n) n (hd (sinkhorn d' [concat_shards out] iterations epsilon False)))"
proof -
  let ?G = "concat_shards out"
  let ?m = "nat iterations"
  let ?S = "sinkhorn_steps 1 ?G ?m epsilon"
  have single: "hd (sinkhorn d' [?G] iterations epsilon False) = ?S"
    by (simp add: sinkhorn_single)
  have ne: "out \<noteq> []" using assms(3) by auto
  have G: "shape0 ?G = length out * n" "shape1 ?G = K"
    using concat_shards_shape [OF ne assms(2)] by blast+
  show ?thesis
  proof (cases "1 < length out")
    case True
    let ?X = "(sinkhorn_iteration (real (length out * n)) ^^ ?m)
       (div_scalar (torch_t (torch_exp (div_scalar ?G epsilon)))
          (torch_sum (torch_t (torch_exp (div_scalar ?G epsilon)))))"
    obtain L where L: "sinkhorn d out iterations epsilon True ! k =
        torch_t (mul_scalar L (real (length out * n)))" "shard k n L ?X"
      using sinkhorn_gather_shard [OF assms(1,2) True assms(3)] by blast
    have shL: "shape0 L = K" "shape1 L = n"
      and eL: "\<And>i j. i < K \<Longrightarrow> j < n \<Longrightarrow> entry L i j = entry ?X i (k * n + j)"
      using L(2) by (simp_all add: shard_def G)
    have "Suc k * n \<le> length out * n"
      using assms(3) by (intro mult_le_mono1) simp
    then have rows: "min (k * n + n) (length out * n) - k * n = n"
      by simp
    have S: "entry ?S (k * n + i) j = entry ?X j (k * n + i) * real (length out * n)" for i j
      unfolding entry_sinkhorn_steps G by simp
    let ?A = "sinkhorn d out iterations epsilon True ! k"
    have shA: "shape0 ?A = n" "shape1 ?A = K"
      unfolding L(1) by (simp_all add: shL)
    have shR: "shape0 (rows_from (k * n) n ?S) = n" "shape1 (rows_from (k * n) n ?S) = K"
      by (simp_all add: rows_from_def G rows)
    have e: "entry ?A i j = entry (rows_from (k * n) n ?S) i j" if "i < n" "j < K" for i j
    proof -
      have "entry ?A i j = entry L j i * real (length out * n)"
        unfolding L(1) by simp
      also have "\<dots> = entry ?X j (k * n + i) * real (length out * n)"
        using eL [OF that(2,1)] by simp
      also have "\<dots> = entry ?S (k * n + i) j"
        by (rule S [symmetric])
      also have "\<dots> = entry (rows_from (k * n) n ?S) i j"
        by (simp add: rows_from_def)
      finally show ?thesis .
    qed
    show ?thesis
      unfolding single same_tensor_def shA shR using e by blast
  next
    case False
    then obtain x where x: "out = [x]"
      using ne by (cases out) auto
    have k: "k = 0" using assms(3) x by simp
    have "shape0 x = n" using assms(2) x by simp
    then have "same_tensor (sinkhorn_steps 1 x ?m epsilon)
        (rows_from 0 n (sinkhorn_steps 1 x ?m epsilon))"
      by (intro same_tensor_rows_from_0) simp
    then show ?thesis
      unfolding single by (simp add: x k sinkhorn_single)
  qed
qed

theorem sinkhorn_distributed_consistent_witness:
  "is_initialized \<lparr>is_available = True, is_initialized = True\<rparr> \<and>
   (0::nat) < length [zeros 1 2,
      \<lparr>shape0 = 1, shape1 = 2, entry = (\<lambda>i j. if j = 0 then ln 2 else 0)\<rparr>] \<and>
   entry (sinkhorn \<lparr>is_available = True, is_initialized = True\<rparr>
      [zeros 1 2, \<lparr>shape0 = 1, shape1 = 2, entry = (\<lambda>i j. if j = 0 then ln 2 else 0)\<rparr>]
      1 1 True ! 0) 0 0 =
   entry (rows_from (0 * 1) 1
      (hd (sinkhorn \<lparr>is_available = True, is_initialized = False\<rparr>
        [concat_shards [zeros 1 2,
           \<lparr>shape0 = 1, shape1 = 2, entry = (\<lambda>i j. if j = 0 then ln 2 else 0)\<rparr>]]
        1 1 False))) 0 0 \<and>
   entry (sinkhorn \<lparr>is_available = True, is_initialized = True\<rparr>
      [zeros 1 2, \<lparr>shape0 = 1, shape1 = 2, entry = (\<lambda>i j. if j = 0 then ln 2 else 0)\<rparr>]
      1 1 True ! 0) 0 0 = 2/5"
proof -
  let ?d = "\<lparr>is_available = True, is_initialized = True\<rparr>"
  let ?d' = "\<lparr>is_available = True, is_initialized = False\<rparr>"
  let ?b = "\<lparr>shape0 = 1, shape1 = 2, entry = (\<lambda>i j. if j = 0 then ln 2 else 0)\<rparr>"
  let ?out = "[zeros 1 2, ?b]"
  let ?A = "sinkhorn ?d ?out 1 1 True ! 0"
  let ?R = "rows_from (0 * 1) 1 (hd (sinkhorn ?d' [concat_shards ?out] 1 1 False))"
  have shapes: "\<forall>x\<in>set ?out. shape0 x = 1 \<and> shape1 x = 2"
    by (simp add: zeros_def)
  have "same_tensor ?A ?R"
    by (rule sinkhorn_distributed_consistent [OF _ shapes]) simp_all
  then have "\<forall>i<shape0 ?A. \<forall>j<shape1 ?A. entry ?A i j = entry ?R i j"
    unfolding same_tensor_def by blast
  moreover have "shape0 ?A = 1" "shape1 ?A = 2"
    by (simp_all add: shape_sinkhorn zeros_def)
  ultimately have eq: "entry ?A 0 0 = entry ?R 0 0"
    by simp
  have A: "entry ?A 0 0 = 2/5"
    by (simp add: sinkhorn_world_size_def get_world_size_def sinkhorn_def Let_def
      all_reduce_def all_reduce_tensor_def zeros_def torch_sum_def sum_dim1_def sum_dim0_def
      idiv_def lessThan_2 torch_t_def torch_exp_def div_scalar_def mul_scalar_def)
  show ?thesis
    using eq A by simp
qed

end
